theory Spec2Isabelle
  imports Complex_Main "HOL-Library.Extended_Nat"
begin

section \<open>Data model of \<open>pce/solver.py\<close>\<close>

text \<open>
  An action is a Python int drawn from \<open>range(numActions)\<close>; a profile is a tuple of
  actions, one per player; an opponent tuple is a profile with one coordinate removed.
  Tuples are lists here.
\<close>

type_synonym action = nat
type_synonym profile = "action list"

text \<open>The exceptions the modelled code can raise.\<close>

datatype py_error = AssertionError | IndexError | NetworkXError | TypeError

text \<open>
  The game wrapper is an external collaborator: it gives the number of players, the number of
  actions and, through \<open>game[profile][player]\<close>, the utility of a player at a profile.
\<close>

record game_wrapper =
  numPlayers :: nat
  numActions :: nat
  game :: "profile \<Rightarrow> nat \<Rightarrow> real"

text \<open>
  The network is a networkx graph: its adjacency structure maps a node to its neighbours, in
  insertion order. Nodes are Python ints. \<open>neighbors(n)\<close> raises \<open>NetworkXError\<close> when
  \<open>n\<close> is not a node of the graph.
\<close>

type_synonym graph = "(int \<times> int list) list"

definition nodes :: "graph \<Rightarrow> int list" where
  "nodes g = map fst g"

definition neighbors :: "graph \<Rightarrow> int \<Rightarrow> py_error + int list" where
  "neighbors g n = (case map_of g n of None \<Rightarrow> Inl NetworkXError | Some ns \<Rightarrow> Inr ns)"

text \<open>
  Indexing a tuple with a Python int: a negative index counts from the end, an index out of
  range raises \<open>IndexError\<close>.
\<close>

definition py_index :: "'a list \<Rightarrow> int \<Rightarrow> py_error + 'a" where
  "py_index xs i =
     (if 0 \<le> i \<and> i < int (length xs) then Inr (xs ! nat i)
      else if i < 0 \<and> - int (length xs) \<le> i then Inr (xs ! nat (int (length xs) + i))
      else Inl IndexError)"

section \<open>The linear programs handed to the external solver\<close>

text \<open>
  A linear expression of the modelling library is a list of (variable, coefficient) terms and a
  constant; the variable created for \<open>orderedConsistent[j]\<close> is variable \<open>j\<close>. The Python
  value of a sum is either a plain number (the sum of no terms is the int \<open>0\<close>) or such an
  expression.
\<close>

datatype lp_expr = PyNum real | is_affine: LpAffineExpression "(nat \<times> real) list" real

datatype lp_sense = LpConstraintLE | LpConstraintEQ

datatype py_value =
    PyBool bool
  | PyExpr lp_expr
  | LpConstraint lp_expr lp_sense lp_expr

record lp_problem =
  objective :: lp_expr
  constraints :: "(lp_expr \<times> lp_sense \<times> lp_expr) list"

definition LpProblem :: lp_problem where
  "LpProblem = \<lparr>objective = PyNum 0, constraints = []\<rparr>"

text \<open>\<open>LpVariable(str(p), 0, 1)\<close>: a fresh variable, bounded by 0 and 1.\<close>

definition LpVariable :: "nat \<Rightarrow> lp_expr" where
  "LpVariable j = LpAffineExpression [(j, 1)] 0"

fun py_add :: "lp_expr \<Rightarrow> lp_expr \<Rightarrow> lp_expr" where
  "py_add (PyNum a) (PyNum b) = PyNum (a + b)"
| "py_add (PyNum a) (LpAffineExpression ts c) = LpAffineExpression ts (c + a)"
| "py_add (LpAffineExpression ts c) (PyNum b) = LpAffineExpression ts (c + b)"
| "py_add (LpAffineExpression ts c) (LpAffineExpression us d) =
     LpAffineExpression (ts @ us) (c + d)"

text \<open>Python's \<open>sum\<close>: a left fold of \<open>+\<close> that starts at the int \<open>0\<close>.\<close>

definition py_sum :: "lp_expr list \<Rightarrow> lp_expr" where
  "py_sum es = foldl py_add (PyNum 0) es"

text \<open>\<open>variables[j] * number\<close>.\<close>

fun py_mul :: "lp_expr \<Rightarrow> real \<Rightarrow> lp_expr" where
  "py_mul (PyNum a) k = PyNum (a * k)"
| "py_mul (LpAffineExpression ts c) k =
     LpAffineExpression (map (\<lambda>(v, x). (v, k * x)) ts) (c * k)"

text \<open>
  \<open>==\<close> and \<open><=\<close>: between two plain numbers they are Python's comparisons and give a
  bool; as soon as one side is a linear expression they build a constraint.
\<close>

fun py_eq :: "lp_expr \<Rightarrow> lp_expr \<Rightarrow> py_value" where
  "py_eq (PyNum a) (PyNum b) = PyBool (a = b)"
| "py_eq l r = LpConstraint l LpConstraintEQ r"

fun py_le :: "lp_expr \<Rightarrow> lp_expr \<Rightarrow> py_value" where
  "py_le (PyNum a) (PyNum b) = PyBool (a \<le> b)"
| "py_le l r = LpConstraint l LpConstraintLE r"

text \<open>
  \<open>prob += value\<close>, as the modelling library (PuLP) defines it: \<open>True\<close> is skipped,
  \<open>False\<close> is refused with a \<open>TypeError\<close>, a constraint is added to the problem, a number
  or an expression becomes the objective.
\<close>

fun iadd :: "lp_problem \<Rightarrow> py_value \<Rightarrow> py_error + lp_problem" where
  "iadd prob (PyBool True) = Inr prob"
| "iadd prob (PyBool False) = Inl TypeError"
| "iadd prob (LpConstraint l s r) =
     Inr (prob\<lparr>constraints := constraints prob @ [(l, s, r)]\<rparr>)"
| "iadd prob (PyExpr e) = Inr (prob\<lparr>objective := e\<rparr>)"

text \<open>
  What a linear program means: an assignment gives each variable a value within its bounds
  \<open>[0, 1]\<close> and satisfies every constraint.
\<close>

fun eval_expr :: "(nat \<Rightarrow> real) \<Rightarrow> lp_expr \<Rightarrow> real" where
  "eval_expr x (PyNum a) = a"
| "eval_expr x (LpAffineExpression ts c) = sum_list (map (\<lambda>(v, k). k * x v) ts) + c"

fun satisfies :: "(nat \<Rightarrow> real) \<Rightarrow> lp_expr \<times> lp_sense \<times> lp_expr \<Rightarrow> bool" where
  "satisfies x (l, LpConstraintLE, r) = (eval_expr x l \<le> eval_expr x r)"
| "satisfies x (l, LpConstraintEQ, r) = (eval_expr x l = eval_expr x r)"

definition lp_solution :: "lp_problem \<Rightarrow> (nat \<Rightarrow> real) \<Rightarrow> bool" where
  "lp_solution prob x =
     ((\<forall>j. 0 \<le> x j \<and> x j \<le> 1) \<and> list_all (satisfies x) (constraints prob))"

definition lp_feasible :: "lp_problem \<Rightarrow> bool" where
  "lp_feasible prob = (\<exists>x. lp_solution prob x)"

text \<open>
  The status codes of the external solver: 1 optimal, 0 not solved, -1 infeasible,
  -2 unbounded, -3 undefined.
\<close>

definition LpStatusOptimal :: int where "LpStatusOptimal = 1"
definition LpStatusNotSolved :: int where "LpStatusNotSolved = 0"
definition LpStatusInfeasible :: int where "LpStatusInfeasible = - 1"
definition LpStatusUnbounded :: int where "LpStatusUnbounded = - 2"
definition LpStatusUndefined :: int where "LpStatusUndefined = - 3"

section \<open>The solver object\<close>

record potluck_solver =
  gameWrapper :: game_wrapper
  solver :: "lp_problem \<Rightarrow> int"
  profiles :: "profile list"
  network :: graph

text \<open>
  \<open>itertools.product(range(numActions), repeat=numPlayers)\<close>: all tuples, the last
  coordinate running fastest.
\<close>

fun product_repeat :: "nat \<Rightarrow> nat \<Rightarrow> profile list" where
  "product_repeat a 0 = [[]]"
| "product_repeat a (Suc n) =
     concat (map (\<lambda>x. map (\<lambda>p. x # p) (product_repeat a n)) [0..<a])"

text \<open>
  \<open>__init__\<close>: builds the full profile list, stores the network and asserts that it is
  not \<open>None\<close>. Nothing else about the network is looked at.
\<close>

definition init :: "game_wrapper \<Rightarrow> (lp_problem \<Rightarrow> int) \<Rightarrow> graph option \<Rightarrow> py_error + potluck_solver" where
  "init gw slv net =
     (case net of
        None \<Rightarrow> Inl AssertionError
      | Some g \<Rightarrow>
          Inr \<lparr>gameWrapper = gw, solver = slv,
               profiles = product_repeat (numActions gw) (numPlayers gw),
               network = g\<rparr>)"

subsection \<open>\<open>consistentStrategies\<close>\<close>

text \<open>
  \<open>all(profile[i] == p[i] for i in neighbours)\<close>: stops at the first disagreement; an
  index out of range raises before that.
\<close>

fun all_agree :: "profile \<Rightarrow> profile \<Rightarrow> int list \<Rightarrow> py_error + bool" where
  "all_agree profile p [] = Inr True"
| "all_agree profile p (i # rest) =
     (case py_index profile i of
        Inl e \<Rightarrow> Inl e
      | Inr a \<Rightarrow>
          (case py_index p i of
             Inl e \<Rightarrow> Inl e
           | Inr b \<Rightarrow> if a = b then all_agree profile p rest else Inr False))"

text \<open>\<open>list(p)[:player] + list(p)[player + 1:]\<close>.\<close>

definition opponents :: "profile \<Rightarrow> nat \<Rightarrow> profile" where
  "opponents p player = take player p @ drop (player + 1) p"

text \<open>
  A Python set is a list without repetitions here; \<open>add\<close> leaves the set alone when the
  element is already in it. The order in which Python iterates a set is unspecified.
\<close>

definition set_add :: "'a \<Rightarrow> 'a list \<Rightarrow> 'a list" where
  "set_add x xs = (if x \<in> set xs then xs else xs @ [x])"

fun consistent_loop ::
  "graph \<Rightarrow> profile \<Rightarrow> nat \<Rightarrow> profile list \<Rightarrow> profile list \<Rightarrow> py_error + profile list" where
  "consistent_loop g profile player [] consistent = Inr consistent"
| "consistent_loop g profile player (p # rest) consistent =
     (case neighbors g (int player) of
        Inl e \<Rightarrow> Inl e
      | Inr ns \<Rightarrow>
          (case all_agree profile p ns of
             Inl e \<Rightarrow> Inl e
           | Inr ok \<Rightarrow>
               consistent_loop g profile player rest
                 (if ok then set_add (opponents p player) consistent else consistent)))"

definition consistentStrategies ::
  "potluck_solver \<Rightarrow> profile \<Rightarrow> nat \<Rightarrow> profile list \<Rightarrow> py_error + profile list" where
  "consistentStrategies self profile player profilesToConsider =
     consistent_loop (network self) profile player profilesToConsider []"

subsection \<open>\<open>checkBestResponse\<close>\<close>

text \<open>\<open>t[:player] + (action,) + t[player:]\<close>.\<close>

definition with_action :: "profile \<Rightarrow> nat \<Rightarrow> action \<Rightarrow> profile" where
  "with_action t player a = take player t @ [a] @ drop player t"

text \<open>
  The terms of \<open>action_utility\<close>; \<open>profile[player]\<close> is read once for every \<open>j\<close>, so
  with no variable it is never read.
\<close>

fun fixed_terms ::
  "game_wrapper \<Rightarrow> lp_expr list \<Rightarrow> profile list \<Rightarrow> profile \<Rightarrow> nat \<Rightarrow> nat list
     \<Rightarrow> py_error + lp_expr list" where
  "fixed_terms gw variables orderedConsistent profile player [] = Inr []"
| "fixed_terms gw variables orderedConsistent profile player (j # js) =
     (case py_index profile (int player) of
        Inl e \<Rightarrow> Inl e
      | Inr a \<Rightarrow>
          (case fixed_terms gw variables orderedConsistent profile player js of
             Inl e \<Rightarrow> Inl e
           | Inr ts \<Rightarrow>
               Inr (py_mul (variables ! j)
                      (game gw (with_action (orderedConsistent ! j) player a) player) # ts)))"

definition action_terms ::
  "game_wrapper \<Rightarrow> lp_expr list \<Rightarrow> profile list \<Rightarrow> nat \<Rightarrow> action \<Rightarrow> lp_expr list" where
  "action_terms gw variables orderedConsistent player a =
     map (\<lambda>j. py_mul (variables ! j)
                 (game gw (with_action (orderedConsistent ! j) player a) player))
       [0..<length variables]"

text \<open>The loop over \<open>range(numActions)\<close> that adds one utility constraint per action.\<close>

fun add_utility_constraints ::
  "game_wrapper \<Rightarrow> lp_expr list \<Rightarrow> profile list \<Rightarrow> nat \<Rightarrow> lp_expr \<Rightarrow> lp_problem
     \<Rightarrow> action list \<Rightarrow> py_error + lp_problem" where
  "add_utility_constraints gw variables orderedConsistent player action_utility prob [] =
     Inr prob"
| "add_utility_constraints gw variables orderedConsistent player action_utility prob (a # as) =
     (case iadd prob
             (py_le (py_sum (action_terms gw variables orderedConsistent player a))
                action_utility) of
        Inl e \<Rightarrow> Inl e
      | Inr prob' \<Rightarrow>
          add_utility_constraints gw variables orderedConsistent player action_utility prob' as)"

text \<open>
  The linear program \<open>checkBestResponse\<close> builds, up to the call of the solver.
\<close>

definition build_lp ::
  "game_wrapper \<Rightarrow> profile \<Rightarrow> nat \<Rightarrow> profile list \<Rightarrow> py_error + lp_problem" where
  "build_lp gw profile player consistent =
     (let orderedConsistent = consistent;
          variables = map LpVariable [0..<length orderedConsistent]
      in case iadd LpProblem (PyExpr (PyNum 0)) of
           Inl e \<Rightarrow> Inl e
         | Inr prob0 \<Rightarrow>
             (case iadd prob0 (py_eq (py_sum variables) (PyNum 1)) of
                Inl e \<Rightarrow> Inl e
              | Inr prob1 \<Rightarrow>
                  (case fixed_terms gw variables orderedConsistent profile player
                          [0..<length variables] of
                     Inl e \<Rightarrow> Inl e
                   | Inr ts \<Rightarrow>
                       add_utility_constraints gw variables orderedConsistent player
                         (py_sum ts) prob1 [0..<numActions gw])))"

definition checkBestResponse ::
  "potluck_solver \<Rightarrow> profile \<Rightarrow> nat \<Rightarrow> profile list \<Rightarrow> py_error + bool" where
  "checkBestResponse self profile player consistent =
     (case build_lp (gameWrapper self) profile player consistent of
        Inl e \<Rightarrow> Inl e
      | Inr prob \<Rightarrow>
          (let status = solver self prob
           in if status = - 1 then Inr False else Inr True))"

subsection \<open>\<open>reduceProfiles\<close>\<close>

text \<open>
  The inner loop over the players with its \<open>break\<close>: the result says whether the loop ran
  to its end (the \<open>else\<close> branch of the \<open>for\<close>).
\<close>

fun players_loop ::
  "potluck_solver \<Rightarrow> profile list \<Rightarrow> profile \<Rightarrow> nat list \<Rightarrow> py_error + bool" where
  "players_loop self profilesToConsider profile [] = Inr True"
| "players_loop self profilesToConsider profile (player # rest) =
     (case consistentStrategies self profile player profilesToConsider of
        Inl e \<Rightarrow> Inl e
      | Inr consistent \<Rightarrow>
          (case checkBestResponse self profile player consistent of
             Inl e \<Rightarrow> Inl e
           | Inr isBestResponse \<Rightarrow>
               if \<not> isBestResponse then Inr False
               else players_loop self profilesToConsider profile rest))"

fun profiles_loop ::
  "potluck_solver \<Rightarrow> profile list \<Rightarrow> profile list \<Rightarrow> profile list
     \<Rightarrow> py_error + profile list" where
  "profiles_loop self profilesToConsider [] reducedProfiles = Inr reducedProfiles"
| "profiles_loop self profilesToConsider (profile # rest) reducedProfiles =
     (case players_loop self profilesToConsider profile
             [0..<numPlayers (gameWrapper self)] of
        Inl e \<Rightarrow> Inl e
      | Inr clear \<Rightarrow>
          profiles_loop self profilesToConsider rest
            (if clear then reducedProfiles @ [profile] else reducedProfiles))"

definition reduceProfiles :: "potluck_solver \<Rightarrow> profile list \<Rightarrow> py_error + profile list" where
  "reduceProfiles self profilesToConsider =
     profiles_loop self profilesToConsider profilesToConsider []"

subsection \<open>\<open>solve\<close>\<close>

text \<open>
  The loop of \<open>solve\<close>. \<open>previous_size\<close> starts at \<open>float("inf")\<close>, so it is an extended
  natural number, and \<open>previous_size - current_size > 0\<close> holds exactly when the previous
  size is the larger one. \<open>out\<close> collects what the loop prints after each call of
  \<open>reduceProfiles\<close>, the pair (previous size, current size).
\<close>

function solve_loop ::
  "potluck_solver \<Rightarrow> enat \<Rightarrow> nat \<Rightarrow> (nat \<times> nat) list
     \<Rightarrow> py_error + potluck_solver \<times> (nat \<times> nat) list" where
  "solve_loop self previous_size current_size out =
     (if previous_size - enat current_size > 0 then
        (case reduceProfiles self (profiles self) of
           Inl e \<Rightarrow> Inl e
         | Inr reduced \<Rightarrow>
             solve_loop (self\<lparr>profiles := reduced\<rparr>) (enat current_size) (length reduced)
               (out @ [(current_size, length reduced)]))
      else Inr (self, out))"
  by pat_completeness auto
termination
proof (relation "measure (\<lambda>(self, previous_size, current_size, out).
          2 * length (profiles self)
          + (if previous_size - enat current_size > 0 then 1 else 0)
          + (if current_size = length (profiles self) then 0 else 2))")
  show "wf (measure (\<lambda>(self, previous_size, current_size, out).
          2 * length (profiles self)
          + (if previous_size - enat current_size > 0 then 1 else 0)
          + (if current_size = length (profiles self) then 0 else 2)))"
    by simp
next
  fix self :: potluck_solver and previous_size :: enat and current_size :: nat
    and out :: "(nat \<times> nat) list" and reduced :: "profile list"
  assume run: "0 < previous_size - enat current_size"
    and red: "reduceProfiles self (profiles self) = Inr reduced"
  have loop: "profiles_loop self S rest acc = Inr r \<Longrightarrow> length r \<le> length acc + length rest"
    for S rest acc r
    by (induction rest arbitrary: acc) (fastforce split: sum.splits if_splits)+
  from red have le: "length reduced \<le> length (profiles self)"
    using loop [of "profiles self" "profiles self" "[]" reduced]
    by (simp add: reduceProfiles_def)
  show "((self\<lparr>profiles := reduced\<rparr>, enat current_size, length reduced,
           out @ [(current_size, length reduced)]),
          (self, previous_size, current_size, out))
        \<in> measure (\<lambda>(self, previous_size, current_size, out).
          2 * length (profiles self)
          + (if previous_size - enat current_size > 0 then 1 else 0)
          + (if current_size = length (profiles self) then 0 else 2))"
    using run le by (auto simp: zero_less_iff_neq_zero enat_0_iff)
qed

text \<open>
  \<open>solve\<close> returns \<open>self.profiles\<close>; the model also returns the object as the loop left it
  and the rounds it printed.
\<close>

definition solve ::
  "potluck_solver \<Rightarrow> py_error + profile list \<times> potluck_solver \<times> (nat \<times> nat) list" where
  "solve self =
     (case solve_loop self \<infinity> (length (profiles self)) [] of
        Inl e \<Rightarrow> Inl e
      | Inr (self', out) \<Rightarrow> Inr (profiles self', self', out))"

section \<open>Well-formed inputs\<close>

text \<open>
  The inputs the data model describes: every player is a node of the network, every neighbour
  of a player is a player index, and every profile has one action per player.
\<close>

definition network_ok :: "graph \<Rightarrow> nat \<Rightarrow> bool" where
  "network_ok g n =
     (\<forall>player<n. \<exists>ns. neighbors g (int player) = Inr ns \<and> (\<forall>i\<in>set ns. 0 \<le> i \<and> i < int n))"

definition profiles_ok :: "nat \<Rightarrow> profile list \<Rightarrow> bool" where
  "profiles_ok n S = (\<forall>p\<in>set S. length p = n)"



text \<open>Two profiles agree on the actions of the given players.\<close>

definition agree_on :: "int list \<Rightarrow> profile \<Rightarrow> profile \<Rightarrow> bool" where
  "agree_on ns profile p = (\<forall>i\<in>set ns. profile ! nat i = p ! nat i)"

section \<open>The specification's words for a round\<close>

text \<open>
  A profile is kept by a round over the snapshot \<open>S\<close> when, for every player, the support
  computed against \<open>S\<close> comes back and the feasibility check on it answers \<open>True\<close>.
\<close>

definition keeps :: "potluck_solver \<Rightarrow> profile list \<Rightarrow> profile \<Rightarrow> bool" where
  "keeps self S p =
     (\<forall>i<numPlayers (gameWrapper self).
        \<exists>c. consistentStrategies self p i S = Inr c \<and> checkBestResponse self p i c = Inr True)"

text \<open>
  The printed rounds form a chain that starts at size \<open>s\<close>: each round starts from the size
  the round before it ended with and ends with a size that is not larger.
\<close>

fun rounds_chain :: "nat \<Rightarrow> (nat \<times> nat) list \<Rightarrow> bool" where
  "rounds_chain s [] = True"
| "rounds_chain s ((a, b) # rest) = (a = s \<and> b \<le> a \<and> rounds_chain b rest)"

section \<open>Conjectures\<close>

text \<open>
  The specification's words for the feasibility check: a conjecture is a probability
  distribution over the support; the fixed action is justified when some conjecture gives no
  action of the player a larger expected utility than the fixed action.
\<close>

definition conjecture :: "profile list \<Rightarrow> (profile \<Rightarrow> real) \<Rightarrow> bool" where
  "conjecture support w =
     ((\<forall>t\<in>set support. 0 \<le> w t \<and> w t \<le> 1) \<and> (\<Sum>t\<in>set support. w t) = 1)"

definition expected_utility ::
  "game_wrapper \<Rightarrow> nat \<Rightarrow> profile list \<Rightarrow> (profile \<Rightarrow> real) \<Rightarrow> action \<Rightarrow> real" where
  "expected_utility gw player support w a =
     (\<Sum>t\<in>set support. w t * game gw (with_action t player a) player)"

definition justified :: "game_wrapper \<Rightarrow> nat \<Rightarrow> action \<Rightarrow> profile list \<Rightarrow> bool" where
  "justified gw player fixedAction support =
     (\<exists>w. conjecture support w \<and>
          (\<forall>a<numActions gw.
             expected_utility gw player support w a
               \<le> expected_utility gw player support w fixedAction))"

section \<open>Concrete inputs\<close>

text \<open>
  The worked scenario of the specification: two players with two actions each,
  U(0,0) = (3,3), U(0,1) = (0,5), U(1,0) = (5,0), U(1,1) = (1,1).
\<close>

definition dilemma :: game_wrapper where
  "dilemma =
     \<lparr>numPlayers = 2, numActions = 2,
      game = (\<lambda>p i.
        if p = [0, 0] then [3, 3] ! i
        else if p = [0, 1] then [0, 5] ! i
        else if p = [1, 0] then [5, 0] ! i
        else if p = [1, 1] then [1, 1] ! i
        else 0)\<rparr>"

text \<open>Two players joined by an edge; two players and no edge; three isolated nodes.\<close>

definition edge_graph :: graph where
  "edge_graph = [(0, [1]), (1, [0])]"

definition empty_graph :: graph where
  "empty_graph = [(0, []), (1, [])]"

definition three_nodes :: graph where
  "three_nodes = [(0, []), (1, []), (2, [])]"

text \<open>
  An exact solver: it reports infeasible (-1) when the program has no solution and optimal
  (1) otherwise.
\<close>

definition exact_solver :: "lp_problem \<Rightarrow> int" where
  "exact_solver prob = (if lp_feasible prob then 1 else - 1)"

text \<open>A solver that gives up on every program: its status is always "not solved" (0).\<close>

definition not_solving :: "lp_problem \<Rightarrow> int" where
  "not_solving prob = LpStatusNotSolved"




section \<open>The consistency oracle\<close>

lemma py_index_in_range:
  "0 \<le> i \<Longrightarrow> i < int (length xs) \<Longrightarrow> py_index xs i = Inr (xs ! nat i)"
  by (simp add: py_index_def)

lemma all_agree_ok:
  assumes "\<forall>i\<in>set ns. 0 \<le> i \<and> i < int n" "length profile = n" "length p = n"
  shows "all_agree profile p ns = Inr (agree_on ns profile p)"
  using assms by (induction ns) (auto simp: py_index_in_range agree_on_def)

lemma set_set_add: "set (set_add x xs) = insert x (set xs)"
  by (auto simp: set_add_def)

lemma distinct_set_add: "distinct xs \<Longrightarrow> distinct (set_add x xs)"
  by (simp add: set_add_def)

lemma consistent_loop_ok:
  assumes "neighbors g (int player) = Inr ns" "\<forall>i\<in>set ns. 0 \<le> i \<and> i < int n"
    "length profile = n" "profiles_ok n S"
  shows "\<exists>c. consistent_loop g profile player S acc = Inr c \<and>
           set c = set acc \<union> (\<lambda>p. opponents p player) ` {p \<in> set S. agree_on ns profile p} \<and>
           (distinct acc \<longrightarrow> distinct c)"
  using assms(4)
proof (induction S arbitrary: acc)
  case Nil
  then show ?case by simp
next
  case (Cons p S)
  from Cons.prems have len: "length p = n" and rest: "profiles_ok n S"
    by (simp_all add: profiles_ok_def)
  have ag: "all_agree profile p ns = Inr (agree_on ns profile p)"
    using all_agree_ok [OF assms(2) assms(3) len] .
  let ?acc = "if agree_on ns profile p then set_add (opponents p player) acc else acc"
  from Cons.IH [OF rest, of ?acc] obtain c where
    c: "consistent_loop g profile player S ?acc = Inr c"
       "set c = set ?acc \<union> (\<lambda>p. opponents p player) ` {p \<in> set S. agree_on ns profile p}"
       "distinct ?acc \<longrightarrow> distinct c"
    by blast
  have "consistent_loop g profile player (p # S) acc = Inr c"
    using c(1) by (simp add: assms(1) ag)
  moreover have "set c = set acc \<union> (\<lambda>p. opponents p player) ` {q \<in> set (p # S). agree_on ns profile q}"
    using c(2) by (auto simp: set_set_add)
  moreover have "distinct acc \<longrightarrow> distinct c"
    using c(3) by (simp add: distinct_set_add)
  ultimately show ?case by blast
qed


lemma all_agree_self: "all_agree profile profile ns = Inr ok \<Longrightarrow> ok"
  by (induction ns) (auto split: sum.splits if_splits)

lemma consistent_loop_acc:
  "consistent_loop g profile player S acc = Inr c \<Longrightarrow> set acc \<subseteq> set c"
proof (induction S arbitrary: acc)
  case Nil
  then show ?case by simp
next
  case (Cons p S)
  from Cons.prems obtain ns ok where
    step: "consistent_loop g profile player S
             (if ok then set_add (opponents p player) acc else acc) = Inr c"
    by (auto split: sum.splits)
  from Cons.IH [OF step] show ?case
    by (auto simp: set_set_add split: if_splits)
qed

lemma consistent_loop_mem:
  "consistent_loop g profile player S acc = Inr c \<Longrightarrow> p \<in> set S \<Longrightarrow>
     \<exists>ns ok. neighbors g (int player) = Inr ns \<and> all_agree profile p ns = Inr ok \<and>
       (ok \<longrightarrow> opponents p player \<in> set c)"
proof (induction S arbitrary: acc)
  case Nil
  then show ?case by simp
next
  case (Cons q S)
  from Cons.prems(1) obtain ns ok where
    ns: "neighbors g (int player) = Inr ns" and ok: "all_agree profile q ns = Inr ok"
    and step: "consistent_loop g profile player S
             (if ok then set_add (opponents q player) acc else acc) = Inr c"
    by (auto split: sum.splits)
  show ?case
  proof (cases "p = q")
    case True
    have "ok \<longrightarrow> opponents q player \<in> set c"
      using consistent_loop_acc [OF step] by (auto simp: set_set_add)
    with ns ok True show ?thesis by blast
  next
    case False
    with Cons.prems(2) have "p \<in> set S" by simp
    from Cons.IH [OF step this] show ?thesis .
  qed
qed

lemma consistentStrategies_ok:
  assumes "network_ok (network self) n" "profiles_ok n S" "length profile = n" "player < n"
  shows "\<exists>c ns. consistentStrategies self profile player S = Inr c \<and>
           neighbors (network self) (int player) = Inr ns \<and>
           (\<forall>i\<in>set ns. 0 \<le> i \<and> i < int n) \<and>
           set c = (\<lambda>p. opponents p player) ` {p \<in> set S. agree_on ns profile p} \<and>
           distinct c"
proof -
  from assms(1,4) obtain ns where
    ns: "neighbors (network self) (int player) = Inr ns" "\<forall>i\<in>set ns. 0 \<le> i \<and> i < int n"
    unfolding network_ok_def by blast
  from consistent_loop_ok [OF ns assms(3) assms(2), of "[]"] ns show ?thesis
    unfolding consistentStrategies_def by auto
qed

text \<open>
  Claim C10. Within \<open>reduceProfiles\<close> every support handed to the feasibility check is
  non-empty: whenever \<open>consistentStrategies\<close> returns for a profile of the set it is given,
  the profile's own opponent tuple is in the result; and on well-formed inputs it does return.
\<close>

theorem own_opponents_in_support:
  assumes "profile \<in> set profilesToConsider"
  shows "(\<forall>consistent.
            consistentStrategies self profile player profilesToConsider = Inr consistent \<longrightarrow>
            opponents profile player \<in> set consistent \<and> consistent \<noteq> []) \<and>
         (network_ok (network self) (numPlayers (gameWrapper self)) \<and>
          profiles_ok (numPlayers (gameWrapper self)) profilesToConsider \<and>
          player < numPlayers (gameWrapper self) \<longrightarrow>
            (\<exists>consistent.
               consistentStrategies self profile player profilesToConsider = Inr consistent))"
proof (intro conjI allI impI)
  fix consistent
  assume ret: "consistentStrategies self profile player profilesToConsider = Inr consistent"
  then obtain ns ok where "all_agree profile profile ns = Inr ok"
    and mem: "ok \<longrightarrow> opponents profile player \<in> set consistent"
    using consistent_loop_mem [of "network self" profile player profilesToConsider "[]"
        consistent profile] assms
    unfolding consistentStrategies_def by blast
  with all_agree_self show "opponents profile player \<in> set consistent" by blast
  then show "consistent \<noteq> []" by auto
next
  assume wf: "network_ok (network self) (numPlayers (gameWrapper self)) \<and>
          profiles_ok (numPlayers (gameWrapper self)) profilesToConsider \<and>
          player < numPlayers (gameWrapper self)"
  with assms have "length profile = numPlayers (gameWrapper self)"
    by (simp add: profiles_ok_def)
  with wf consistentStrategies_ok [of self "numPlayers (gameWrapper self)" profilesToConsider
      profile player]
  show "\<exists>consistent.
           consistentStrategies self profile player profilesToConsider = Inr consistent"
    by blast
qed

theorem own_opponents_in_support_witness:
  "[0, 1] \<in> set [[0, 0], [0, 1], [1, 1]] \<and>
   consistentStrategies
     \<lparr>gameWrapper = dilemma, solver = exact_solver, profiles = [], network = edge_graph\<rparr>
     [0, 1] 0 [[0, 0], [0, 1], [1, 1]] = Inr [[1]] \<and>
   opponents [0, 1] 0 \<in> set [[1 :: nat]]"
proof -
  have mem: "[0, 1] \<in> set [[0, 0], [0, 1], [1 :: nat, 1]]" by simp
  have run: "consistentStrategies
     \<lparr>gameWrapper = dilemma, solver = exact_solver, profiles = [], network = edge_graph\<rparr>
     [0, 1] 0 [[0, 0], [0, 1], [1, 1]] = Inr [[1]]"
    by (simp add: consistentStrategies_def edge_graph_def neighbors_def py_index_def
        opponents_def set_add_def)
  from own_opponents_in_support [where player = 0 and self =
      "\<lparr>gameWrapper = dilemma, solver = exact_solver, profiles = [], network = edge_graph\<rparr>",
      OF mem] run mem
  show ?thesis
    by simp
qed



section \<open>The feasibility check\<close>

lemma eval_py_add: "eval_expr x (py_add e f) = eval_expr x e + eval_expr x f"
  by (cases e; cases f) simp_all

lemma eval_foldl_py_add:
  "eval_expr x (foldl py_add e es) = eval_expr x e + sum_list (map (eval_expr x) es)"
  by (induction es arbitrary: e) (simp_all add: eval_py_add)

lemma eval_py_sum: "eval_expr x (py_sum es) = sum_list (map (eval_expr x) es)"
  by (simp add: py_sum_def eval_foldl_py_add)

lemma affine_py_add: "is_affine e \<or> is_affine f \<Longrightarrow> is_affine (py_add e f)"
  by (cases e; cases f) simp_all

lemma affine_foldl: "is_affine e \<Longrightarrow> is_affine (foldl py_add e es)"
  by (induction es arbitrary: e) (simp_all add: affine_py_add)

lemma affine_py_sum: "es \<noteq> [] \<Longrightarrow> is_affine (hd es) \<Longrightarrow> is_affine (py_sum es)"
  by (cases es) (simp_all add: py_sum_def affine_foldl affine_py_add)

lemma affine_py_mul: "is_affine (py_mul e k) = is_affine e"
  by (cases e) simp_all

lemma eval_py_mul: "eval_expr x (py_mul e k) = k * eval_expr x e"
proof (cases e)
  case (PyNum a)
  then show ?thesis by simp
next
  case (LpAffineExpression ts c)
  have "sum_list (map ((\<lambda>(v, k). k * x v) \<circ> (\<lambda>(v, y). (v, k * y))) ts)
      = k * sum_list (map (\<lambda>(v, k). k * x v) ts)"
    by (induction ts) (auto simp: algebra_simps)
  with LpAffineExpression show ?thesis by (simp add: algebra_simps)
qed

lemma affine_LpVariable: "is_affine (LpVariable j)"
  by (simp add: LpVariable_def)

lemma eval_LpVariable: "eval_expr x (LpVariable j) = x j"
  by (simp add: LpVariable_def)

lemma py_eq_affine: "is_affine l \<Longrightarrow> py_eq l r = LpConstraint l LpConstraintEQ r"
  by (cases l; cases r) simp_all

lemma py_le_affine: "is_affine l \<Longrightarrow> py_le l r = LpConstraint l LpConstraintLE r"
  by (cases l; cases r) simp_all

lemma fixed_terms_ok:
  assumes "player < length profile"
  shows "fixed_terms gw variables oc profile player js =
           Inr (map (\<lambda>j. py_mul (variables ! j)
                 (game gw (with_action (oc ! j) player (profile ! player)) player)) js)"
  using assms by (induction js) (simp_all add: py_index_in_range)

lemma fixed_terms_action_terms:
  assumes "player < length profile"
  shows "fixed_terms gw variables oc profile player [0..<length variables] =
           Inr (action_terms gw variables oc player (profile ! player))"
  using fixed_terms_ok [OF assms] by (simp add: action_terms_def)

lemma affine_action_terms:
  assumes "n \<noteq> 0"
  shows "is_affine (py_sum (action_terms gw (map LpVariable [0..<n]) oc player a))"
proof -
  let ?ts = "action_terms gw (map LpVariable [0..<n]) oc player a"
  from assms have ne: "?ts \<noteq> []" by (simp add: action_terms_def)
  from assms have "hd ?ts = py_mul (LpVariable 0) (game gw (with_action (oc ! 0) player a) player)"
    by (simp add: action_terms_def hd_map upt_conv_Cons)
  then have "is_affine (hd ?ts)" by (simp add: affine_py_mul affine_LpVariable)
  with ne show ?thesis by (rule affine_py_sum)
qed

lemma add_utility_constraints_ok:
  assumes "n \<noteq> 0"
  shows "add_utility_constraints gw (map LpVariable [0..<n]) oc player au prob as =
           Inr (prob\<lparr>constraints := constraints prob @
                  map (\<lambda>a. (py_sum (action_terms gw (map LpVariable [0..<n]) oc player a),
                             LpConstraintLE, au)) as\<rparr>)"
proof (induction as arbitrary: prob)
  case Nil
  then show ?case by simp
next
  case (Cons a as)
  show ?case
    by (simp add: py_le_affine [OF affine_action_terms [OF assms]] Cons.IH)
qed

lemma build_lp_ok:
  assumes "consistent \<noteq> []" "player < length profile"
  shows "build_lp gw profile player consistent =
           Inr \<lparr>objective = PyNum 0,
                constraints =
                  (py_sum (map LpVariable [0..<length consistent]), LpConstraintEQ, PyNum 1) #
                  map (\<lambda>a. (py_sum (action_terms gw (map LpVariable [0..<length consistent])
                                        consistent player a),
                             LpConstraintLE,
                             py_sum (action_terms gw (map LpVariable [0..<length consistent])
                                        consistent player (profile ! player))))
                    [0..<numActions gw]\<rparr>"
proof -
  from assms(1) have n: "length consistent \<noteq> 0" by simp
  have "is_affine (py_sum (map LpVariable [0..<length consistent]))"
    using n by (intro affine_py_sum) (simp_all add: hd_map upt_conv_Cons affine_LpVariable)
  then have eq: "py_eq (py_sum (map LpVariable [0..<length consistent])) (PyNum 1)
      = LpConstraint (py_sum (map LpVariable [0..<length consistent])) LpConstraintEQ (PyNum 1)"
    by (rule py_eq_affine)
  have ft: "fixed_terms gw (map LpVariable [0..<length consistent]) consistent profile player
              [0..<length consistent]
            = Inr (action_terms gw (map LpVariable [0..<length consistent]) consistent player
                    (profile ! player))"
    using fixed_terms_action_terms [OF assms(2), of gw "map LpVariable [0..<length consistent]"]
    by simp
  show ?thesis
    by (simp add: build_lp_def Let_def LpProblem_def eq ft add_utility_constraints_ok [OF n])
qed

lemma sum_list_nth_upt: "sum_list (map (\<lambda>j. g (c ! j)) [0..<length c]) = sum_list (map g c)"
proof -
  have "map (\<lambda>j. g (c ! j)) [0..<length c] = map g (map (\<lambda>j. c ! j) [0..<length c])"
    by simp
  then show ?thesis by (simp only: map_nth)
qed

lemma eval_sum_variables:
  "eval_expr x (py_sum (map LpVariable [0..<n])) = sum_list (map x [0..<n])"
  by (simp add: eval_py_sum comp_def eval_LpVariable)

lemma eval_action_terms:
  "eval_expr x (py_sum (action_terms gw (map LpVariable [0..<n]) oc player a)) =
     sum_list (map (\<lambda>j. x j * game gw (with_action (oc ! j) player a) player) [0..<n])"
proof -
  have "map (eval_expr x) (action_terms gw (map LpVariable [0..<n]) oc player a)
      = map (\<lambda>j. x j * game gw (with_action (oc ! j) player a) player) [0..<n]"
    by (simp add: action_terms_def eval_py_mul eval_LpVariable mult.commute)
  then show ?thesis by (simp add: eval_py_sum)
qed

lemma lp_solution_build_lp:
  assumes "consistent \<noteq> []" "player < length profile"
    and "build_lp gw profile player consistent = Inr prob"
  shows "lp_solution prob x \<longleftrightarrow>
           (\<forall>j. 0 \<le> x j \<and> x j \<le> 1) \<and>
           sum_list (map x [0..<length consistent]) = 1 \<and>
           (\<forall>a<numActions gw.
              sum_list (map (\<lambda>j. x j * game gw (with_action (consistent ! j) player a) player)
                          [0..<length consistent])
              \<le> sum_list (map (\<lambda>j. x j * game gw (with_action (consistent ! j) player
                                                  (profile ! player)) player)
                          [0..<length consistent]))"
proof -
  from assms(3) build_lp_ok [OF assms(1,2), of gw] have
    cs: "constraints prob =
           (py_sum (map LpVariable [0..<length consistent]), LpConstraintEQ, PyNum 1) #
           map (\<lambda>a. (py_sum (action_terms gw (map LpVariable [0..<length consistent])
                                 consistent player a),
                      LpConstraintLE,
                      py_sum (action_terms gw (map LpVariable [0..<length consistent])
                                 consistent player (profile ! player))))
             [0..<numActions gw]"
    by auto
  show ?thesis
    unfolding lp_solution_def cs
    by (auto simp: list_all_iff eval_sum_variables eval_action_terms)
qed

lemma sum_set_as_list:
  assumes "distinct c"
  shows "(\<Sum>t\<in>set c. g t) = sum_list (map (\<lambda>j. g (c ! j)) [0..<length c])"
  using assms by (simp add: sum_list_nth_upt sum_list_distinct_conv_sum_set)

lemma lp_feasible_justified:
  assumes "consistent \<noteq> []" "player < length profile" "distinct consistent"
    and "build_lp gw profile player consistent = Inr prob"
  shows "lp_feasible prob \<longleftrightarrow> justified gw player (profile ! player) consistent"
proof
  let ?n = "length consistent"
  assume "lp_feasible prob"
  then obtain x where x: "lp_solution prob x" by (auto simp: lp_feasible_def)
  note sol = x [unfolded lp_solution_build_lp [OF assms(1,2,4)]]
  define w where "w t = (case map_of (zip consistent (map x [0..<?n])) t of
                           Some v \<Rightarrow> v | None \<Rightarrow> 0)" for t
  have wj: "w (consistent ! j) = x j" if "j < ?n" for j
    using that assms(3) by (simp add: w_def map_of_zip_nth)
  have conv: "(\<Sum>t\<in>set consistent. w t * f t)
      = sum_list (map (\<lambda>j. x j * f (consistent ! j)) [0..<?n])" for f :: "profile \<Rightarrow> real"
    unfolding sum_set_as_list [OF assms(3)]
    by (rule arg_cong [where f = sum_list]) (simp add: wj)
  have "conjecture consistent w"
  proof -
    have "\<forall>t\<in>set consistent. 0 \<le> w t \<and> w t \<le> 1"
      using sol wj by (metis in_set_conv_nth)
    moreover have "(\<Sum>t\<in>set consistent. w t) = 1"
      using conv [of "\<lambda>t. 1"] sol by simp
    ultimately show ?thesis by (simp add: conjecture_def)
  qed
  moreover have "\<forall>a<numActions gw.
             expected_utility gw player consistent w a
               \<le> expected_utility gw player consistent w (profile ! player)"
    using sol by (simp add: expected_utility_def conv)
  ultimately show "justified gw player (profile ! player) consistent"
    by (auto simp: justified_def)
next
  let ?n = "length consistent"
  assume "justified gw player (profile ! player) consistent"
  then obtain w where w: "conjecture consistent w"
    and br: "\<forall>a<numActions gw.
             expected_utility gw player consistent w a
               \<le> expected_utility gw player consistent w (profile ! player)"
    by (auto simp: justified_def)
  define x where "x j = (if j < ?n then w (consistent ! j) else 0)" for j
  have conv: "(\<Sum>t\<in>set consistent. w t * f t)
      = sum_list (map (\<lambda>j. x j * f (consistent ! j)) [0..<?n])" for f :: "profile \<Rightarrow> real"
    unfolding sum_set_as_list [OF assms(3)]
    by (rule arg_cong [where f = sum_list]) (simp add: x_def)
  have "\<forall>j. 0 \<le> x j \<and> x j \<le> 1"
    using w by (simp add: x_def conjecture_def)
  moreover have "sum_list (map x [0..<?n]) = 1"
    using conv [of "\<lambda>t. 1"] w by (simp add: conjecture_def)
  moreover have "\<forall>a<numActions gw.
              sum_list (map (\<lambda>j. x j * game gw (with_action (consistent ! j) player a) player)
                          [0..<?n])
              \<le> sum_list (map (\<lambda>j. x j * game gw (with_action (consistent ! j) player
                                                  (profile ! player)) player)
                          [0..<?n])"
    using br by (simp add: expected_utility_def conv)
  ultimately have "lp_solution prob x"
    by (simp add: lp_solution_build_lp [OF assms(1,2,4)])
  then show "lp_feasible prob" by (auto simp: lp_feasible_def)
qed

text \<open>
  Claim C3. With an empty support the check does not report infeasible: \<open>sum([]) == 1\<close> is
  the Python bool \<open>False\<close>, not a constraint, and adding it to the problem raises.
\<close>

theorem checkBestResponse_empty:
  "checkBestResponse self profile player [] = Inl TypeError"
  by (simp add: checkBestResponse_def build_lp_def LpProblem_def py_sum_def)

text \<open>
  Claim C4. With a non-empty support and the player's own coordinate in range, the check
  returns \<open>False\<close> exactly when the solver's status is infeasible (-1) and \<open>True\<close> for
  every other status; no status is turned into an error.
\<close>

theorem checkBestResponse_status:
  assumes "consistent \<noteq> []" "player < length profile"
  shows "\<exists>prob. build_lp (gameWrapper self) profile player consistent = Inr prob \<and>
           checkBestResponse self profile player consistent =
             Inr (solver self prob \<noteq> LpStatusInfeasible)"
  using build_lp_ok [OF assms, of "gameWrapper self"]
  by (simp add: checkBestResponse_def LpStatusInfeasible_def Let_def)

theorem checkBestResponse_status_witness:
  "\<exists>prob. build_lp dilemma [1, 1] 0 [[0], [1]] = Inr prob \<and>
     checkBestResponse
       \<lparr>gameWrapper = dilemma, solver = exact_solver, profiles = [], network = empty_graph\<rparr>
       [1, 1] 0 [[0], [1]] = Inr (exact_solver prob \<noteq> LpStatusInfeasible)"
proof -
  have ne: "[[0], [1 :: nat]] \<noteq> []" by simp
  have pl: "0 < length [1 :: nat, 1]" by simp
  from checkBestResponse_status [OF ne pl, of
      "\<lparr>gameWrapper = dilemma, solver = exact_solver, profiles = [], network = empty_graph\<rparr>"]
  show ?thesis by simp
qed

text \<open>
  The claim fails for a solver that reports "not solved": the answer is \<open>True\<close>, not an
  error.
\<close>

theorem checkBestResponse_not_solved_is_true:
  "checkBestResponse
     \<lparr>gameWrapper = dilemma, solver = not_solving, profiles = [], network = empty_graph\<rparr>
     [0, 0] 0 [[0], [1]] = Inr True"
  by (simp add: checkBestResponse_def build_lp_ok not_solving_def LpStatusNotSolved_def)

text \<open>
  Claim C1. For a non-empty support (a set, so without repetitions) and a solver whose status
  on the program built is infeasible exactly when the program has no solution, the check
  returns whether some conjecture over the support justifies the fixed action.
\<close>

theorem checkBestResponse_justified:
  assumes "consistent \<noteq> []" "distinct consistent" "player < length profile"
    and "\<And>prob. build_lp (gameWrapper self) profile player consistent = Inr prob \<Longrightarrow>
           (solver self prob = LpStatusInfeasible) = (\<not> lp_feasible prob)"
  shows "checkBestResponse self profile player consistent =
           Inr (justified (gameWrapper self) player (profile ! player) consistent)"
proof -
  from build_lp_ok [OF assms(1,3), of "gameWrapper self"] obtain prob where
    prob: "build_lp (gameWrapper self) profile player consistent = Inr prob"
    by blast
  then have res: "checkBestResponse self profile player consistent =
             Inr (solver self prob \<noteq> LpStatusInfeasible)"
    by (simp add: checkBestResponse_def LpStatusInfeasible_def Let_def)
  from assms(4) [OF prob] lp_feasible_justified [OF assms(1,3,2) prob]
  have "(solver self prob \<noteq> LpStatusInfeasible) =
          justified (gameWrapper self) player (profile ! player) consistent"
    by simp
  with res show ?thesis by simp
qed

lemma justified_dilemma: "justified dilemma 0 1 [[0], [1]]"
proof -
  define w :: "profile \<Rightarrow> real" where "w t = (if t = [0] then 1 else 0)" for t
  have "conjecture [[0], [1]] w"
    by (simp add: conjecture_def w_def)
  moreover have "\<forall>a<numActions dilemma.
             expected_utility dilemma 0 [[0], [1]] w a
               \<le> expected_utility dilemma 0 [[0], [1]] w 1"
    by (auto simp: expected_utility_def w_def dilemma_def with_action_def less_2_cases_iff)
  ultimately show ?thesis unfolding justified_def by blast
qed

lemma not_justified_dilemma: "\<not> justified dilemma 0 0 [[0]]"
proof
  assume "justified dilemma 0 0 [[0]]"
  then obtain w where w: "conjecture [[0]] w"
    and br: "\<forall>a<numActions dilemma.
             expected_utility dilemma 0 [[0]] w a \<le> expected_utility dilemma 0 [[0]] w 0"
    unfolding justified_def by blast
  from w have "w [0] = 1" by (simp add: conjecture_def)
  moreover from br have "expected_utility dilemma 0 [[0]] w 1 \<le> expected_utility dilemma 0 [[0]] w 0"
    by (simp add: dilemma_def)
  ultimately show False
    by (simp add: expected_utility_def dilemma_def with_action_def)
qed

theorem checkBestResponse_justified_witness:
  "checkBestResponse
     \<lparr>gameWrapper = dilemma, solver = exact_solver, profiles = [], network = empty_graph\<rparr>
     [1, 1] 0 [[0], [1]] = Inr True \<and>
   justified dilemma 0 1 [[0], [1]]"
proof -
  let ?self = "\<lparr>gameWrapper = dilemma, solver = exact_solver, profiles = [],
                  network = empty_graph\<rparr>"
  have ne: "[[0], [1 :: nat]] \<noteq> []" by simp
  have di: "distinct [[0], [1 :: nat]]" by simp
  have pl: "0 < length [1 :: nat, 1]" by simp
  have ex: "(solver ?self prob = LpStatusInfeasible) = (\<not> lp_feasible prob)" for prob
    by (simp add: exact_solver_def LpStatusInfeasible_def)
  from checkBestResponse_justified [of "[[0], [1]]" 0 "[1, 1]" ?self, OF ne di pl ex]
    justified_dilemma
  show ?thesis by simp
qed

text \<open>
  The claim fails when the solver gives up: against the only opponent action 0, action 1 pays
  5 and action 0 pays 3, so no conjecture justifies action 0, yet the check answers \<open>True\<close>.
\<close>

theorem checkBestResponse_unjustified_true:
  "checkBestResponse
     \<lparr>gameWrapper = dilemma, solver = not_solving, profiles = [], network = empty_graph\<rparr>
     [0, 0] 0 [[0]] = Inr True \<and>
   \<not> justified dilemma 0 0 [[0]]"
  using not_justified_dilemma
  by (simp add: checkBestResponse_def build_lp_ok not_solving_def LpStatusNotSolved_def)

section \<open>The reduction operator\<close>

lemma players_loop_True_iff:
  "players_loop self S profile ps = Inr True \<longleftrightarrow>
     (\<forall>player\<in>set ps. \<exists>c. consistentStrategies self profile player S = Inr c \<and>
                          checkBestResponse self profile player c = Inr True)"
  by (induction ps) (auto split: sum.splits)

lemma players_loop_keeps:
  "players_loop self S p [0..<numPlayers (gameWrapper self)] = Inr True \<longleftrightarrow> keeps self S p"
  by (auto simp: players_loop_True_iff keeps_def)

lemma profiles_loop_filter:
  "profiles_loop self S rest acc = Inr r \<Longrightarrow> r = acc @ filter (keeps self S) rest"
proof (induction rest arbitrary: acc)
  case Nil
  then show ?case by simp
next
  case (Cons p rest)
  from Cons.prems obtain clear where
    cl: "players_loop self S p [0..<numPlayers (gameWrapper self)] = Inr clear"
    and step: "profiles_loop self S rest (if clear then acc @ [p] else acc) = Inr r"
    by (auto split: sum.splits)
  from cl have "clear = keeps self S p"
    using players_loop_keeps [of self S p] by auto
  with Cons.IH [OF step] show ?case by simp
qed

lemma reduceProfiles_filter:
  "reduceProfiles self S = Inr R \<Longrightarrow> R = filter (keeps self S) S"
  using profiles_loop_filter [of self S S "[]" R] by (simp add: reduceProfiles_def)

lemma checkBestResponse_returns:
  assumes "consistent \<noteq> []" "player < length profile"
  shows "\<exists>b. checkBestResponse self profile player consistent = Inr b"
  using build_lp_ok [OF assms, of "gameWrapper self"]
  by (auto simp: checkBestResponse_def Let_def)

lemma consistentStrategies_nonempty:
  assumes "consistentStrategies self profile player S = Inr c" "profile \<in> set S"
  shows "c \<noteq> []"
proof -
  from consistent_loop_mem [of "network self" profile player S "[]" c profile] assms
  obtain ns ok where "all_agree profile profile ns = Inr ok"
    and "ok \<longrightarrow> opponents profile player \<in> set c"
    unfolding consistentStrategies_def by blast
  with all_agree_self have "opponents profile player \<in> set c" by blast
  then show ?thesis by auto
qed

lemma players_loop_returns:
  assumes "network_ok (network self) n" "profiles_ok n S" "profile \<in> set S"
    and "\<forall>player\<in>set ps. player < n"
  shows "\<exists>b. players_loop self S profile ps = Inr b"
  using assms(4)
proof (induction ps)
  case Nil
  then show ?case by auto
next
  case (Cons player ps)
  from assms(2,3) have len: "length profile = n" by (simp add: profiles_ok_def)
  from Cons.prems have pl: "player < n" by simp
  from consistentStrategies_ok [OF assms(1,2) len pl] obtain c where
    c: "consistentStrategies self profile player S = Inr c" by blast
  from consistentStrategies_nonempty [OF c assms(3)] have ne: "c \<noteq> []" .
  from checkBestResponse_returns [OF ne, of player profile self] pl len obtain b where
    b: "checkBestResponse self profile player c = Inr b" by auto
  from Cons.IH Cons.prems obtain b' where "players_loop self S profile ps = Inr b'" by auto
  with c b have "players_loop self S profile (player # ps) = Inr (b \<and> b')" by simp
  then show ?case by blast
qed

lemma profiles_loop_returns:
  assumes "network_ok (network self) (numPlayers (gameWrapper self))"
    "profiles_ok (numPlayers (gameWrapper self)) S" "set rest \<subseteq> set S"
  shows "\<exists>r. profiles_loop self S rest acc = Inr r"
  using assms(3)
proof (induction rest arbitrary: acc)
  case Nil
  then show ?case by simp
next
  case (Cons p rest)
  from Cons.prems have p: "p \<in> set S" and rest: "set rest \<subseteq> set S" by simp_all
  from players_loop_returns [OF assms(1,2) p, of "[0..<numPlayers (gameWrapper self)]"]
  obtain b where "players_loop self S p [0..<numPlayers (gameWrapper self)] = Inr b" by auto
  with Cons.IH [OF rest] show ?case by simp
qed

lemma reduceProfiles_returns:
  assumes "network_ok (network self) (numPlayers (gameWrapper self))"
    "profiles_ok (numPlayers (gameWrapper self)) S"
  shows "reduceProfiles self S = Inr (filter (keeps self S) S)"
proof -
  from profiles_loop_returns [OF assms, of S "[]"] obtain r where
    r: "reduceProfiles self S = Inr r" by (auto simp: reduceProfiles_def)
  with reduceProfiles_filter [OF r] show ?thesis by simp
qed

lemma consistentStrategies_profiles_update [simp]:
  "consistentStrategies (self\<lparr>profiles := x\<rparr>) p i S = consistentStrategies self p i S"
  by (simp add: consistentStrategies_def)

lemma checkBestResponse_profiles_update [simp]:
  "checkBestResponse (self\<lparr>profiles := x\<rparr>) p i c = checkBestResponse self p i c"
  by (simp add: checkBestResponse_def split: sum.splits)

lemma keeps_profiles_update [simp]: "keeps (self\<lparr>profiles := x\<rparr>) S = keeps self S"
  by (simp add: keeps_def fun_eq_iff)

lemma players_loop_profiles_update [simp]:
  "players_loop (self\<lparr>profiles := x\<rparr>) S p ps = players_loop self S p ps"
  by (induction ps) (simp_all split: sum.splits)

lemma profiles_loop_profiles_update [simp]:
  "profiles_loop (self\<lparr>profiles := x\<rparr>) S rest acc = profiles_loop self S rest acc"
  by (induction rest arbitrary: acc) (simp_all split: sum.splits)

lemma reduceProfiles_profiles_update [simp]:
  "reduceProfiles (self\<lparr>profiles := x\<rparr>) S = reduceProfiles self S"
  by (simp add: reduceProfiles_def)

section \<open>The fixed-point loop\<close>

lemma reduceProfiles_length:
  "reduceProfiles self S = Inr R \<Longrightarrow> length R \<le> length S"
  using reduceProfiles_filter [of self S R] by simp

lemma reduceProfiles_same_length:
  assumes "reduceProfiles self S = Inr R" "length S \<le> length R"
  shows "R = S"
proof -
  from reduceProfiles_filter [OF assms(1)] have R: "R = filter (keeps self S) S" .
  have "\<forall>p\<in>set S. keeps self S p"
  proof (rule ccontr)
    assume "\<not> (\<forall>p\<in>set S. keeps self S p)"
    then obtain p where "p \<in> set S" "\<not> keeps self S p" by blast
    then have "length (filter (keeps self S) S) < length S" by (rule length_filter_less)
    with R assms(2) show False by simp
  qed
  with R show ?thesis by simp
qed

lemma solve_loop_returns:
  assumes "network_ok (network self) (numPlayers (gameWrapper self))"
    "profiles_ok (numPlayers (gameWrapper self)) (profiles self)"
  shows "\<exists>self' out'. solve_loop self previous_size current_size out = Inr (self', out')"
  using assms
proof (induction self previous_size current_size out rule: solve_loop.induct)
  case (1 self previous_size current_size out)
  show ?case
  proof (cases "previous_size - enat current_size > 0")
    case False
    then show ?thesis by simp
  next
    case True
    let ?r = "filter (keeps self (profiles self)) (profiles self)"
    have red: "reduceProfiles self (profiles self) = Inr ?r"
      using reduceProfiles_returns [OF "1.prems"] .
    have "profiles_ok (numPlayers (gameWrapper self)) ?r"
      using "1.prems"(2) by (simp add: profiles_ok_def)
    with "1.IH" [OF True red] "1.prems"(1)
    obtain self' out' where
      "solve_loop (self\<lparr>profiles := ?r\<rparr>) (enat current_size) (length ?r)
         (out @ [(current_size, length ?r)]) = Inr (self', out')"
      by auto
    with True red show ?thesis by (subst solve_loop.simps) simp
  qed
qed

lemma solve_loop_chain:
  assumes "solve_loop self previous_size current_size out = Inr (self', out')"
    "current_size = length (profiles self)"
  shows "\<exists>ext. out' = out @ ext \<and> rounds_chain current_size ext \<and>
           gameWrapper self' = gameWrapper self \<and> solver self' = solver self \<and>
           network self' = network self \<and> set (profiles self') \<subseteq> set (profiles self)"
  using assms
proof (induction self previous_size current_size out rule: solve_loop.induct)
  case (1 self previous_size current_size out)
  show ?case
  proof (cases "previous_size - enat current_size > 0")
    case False
    with "1.prems" show ?thesis by simp
  next
    case True
    with "1.prems"(1) obtain r where
      red: "reduceProfiles self (profiles self) = Inr r"
      and rec: "solve_loop (self\<lparr>profiles := r\<rparr>) (enat current_size) (length r)
                  (out @ [(current_size, length r)]) = Inr (self', out')"
      by (subst (asm) solve_loop.simps) (auto split: sum.splits)
    from "1.IH" [OF True red rec] obtain ext where
      ext: "out' = (out @ [(current_size, length r)]) @ ext" "rounds_chain (length r) ext"
        "gameWrapper self' = gameWrapper self" "solver self' = solver self"
        "network self' = network self" "set (profiles self') \<subseteq> set r"
      by auto
    from reduceProfiles_length [OF red] "1.prems"(2) have le: "length r \<le> current_size"
      by simp
    from reduceProfiles_filter [OF red] have "set r \<subseteq> set (profiles self)" by auto
    with ext le show ?thesis by auto
  qed
qed

lemma solve_loop_fixed_point:
  assumes "solve_loop self previous_size current_size out = Inr (self', out')"
    "current_size = length (profiles self)"
    "previous_size = \<infinity> \<or>
       (\<exists>S. reduceProfiles self S = Inr (profiles self) \<and> previous_size = enat (length S))"
  shows "reduceProfiles self' (profiles self') = Inr (profiles self')"
  using assms
proof (induction self previous_size current_size out rule: solve_loop.induct)
  case (1 self previous_size current_size out)
  show ?case
  proof (cases "previous_size - enat current_size > 0")
    case False
    with "1.prems"(1) have same: "self' = self" by simp
    from False have fin: "previous_size \<noteq> \<infinity>" by (cases previous_size) auto
    with "1.prems"(3) obtain S where
      S: "reduceProfiles self S = Inr (profiles self)" "previous_size = enat (length S)"
      by blast
    from False S(2) "1.prems"(2) have "length S \<le> length (profiles self)"
      by (simp add: zero_less_iff_neq_zero enat_0_iff)
    from reduceProfiles_same_length [OF S(1) this] S(1) same show ?thesis by simp
  next
    case True
    with "1.prems"(1) obtain r where
      red: "reduceProfiles self (profiles self) = Inr r"
      and rec: "solve_loop (self\<lparr>profiles := r\<rparr>) (enat current_size) (length r)
                  (out @ [(current_size, length r)]) = Inr (self', out')"
      by (subst (asm) solve_loop.simps) (auto split: sum.splits)
    have "\<exists>S. reduceProfiles (self\<lparr>profiles := r\<rparr>) S = Inr (profiles (self\<lparr>profiles := r\<rparr>)) \<and>
            enat current_size = enat (length S)"
      using red "1.prems"(2) by (intro exI [of _ "profiles self"]) simp
    with "1.IH" [OF True red rec] show ?thesis by simp
  qed
qed


section \<open>The worked scenario\<close>

lemma checkBestResponse_exact:
  assumes "consistent \<noteq> []" "distinct consistent" "player < length profile"
    and "solver self = exact_solver"
  shows "checkBestResponse self profile player consistent =
           Inr (justified (gameWrapper self) player (profile ! player) consistent)"
proof -
  from build_lp_ok [OF assms(1,3), of "gameWrapper self"] obtain prob where
    prob: "build_lp (gameWrapper self) profile player consistent = Inr prob"
    by blast
  then have "checkBestResponse self profile player consistent = Inr (lp_feasible prob)"
    by (simp add: checkBestResponse_def assms(4) exact_solver_def)
  with lp_feasible_justified [OF assms(1,3,2) prob] show ?thesis by simp
qed

lemma upt_2: "[0..<2] = [0, 1]"
  by (simp add: upt_rec numeral_2_eq_2)

lemma dilemma_0_0: "\<not> justified dilemma 0 0 [[0], [1]]"
proof
  assume "justified dilemma 0 0 [[0], [1]]"
  then obtain w where w: "conjecture [[0], [1]] w"
    and br: "\<forall>a<numActions dilemma.
             expected_utility dilemma 0 [[0], [1]] w a \<le> expected_utility dilemma 0 [[0], [1]] w 0"
    unfolding justified_def by blast
  from w have s: "w [0] + w [1] = 1" "0 \<le> w [0]" "0 \<le> w [1]" by (simp_all add: conjecture_def)
  from br have "expected_utility dilemma 0 [[0], [1]] w 1 \<le> expected_utility dilemma 0 [[0], [1]] w 0"
    by (simp add: dilemma_def)
  then have "w [0] * 5 + w [1] * 1 \<le> w [0] * 3 + w [1] * 0"
    by (simp add: expected_utility_def dilemma_def with_action_def)
  with s show False by simp
qed

lemma dilemma_1_0: "\<not> justified dilemma 1 0 [[0], [1]]"
proof
  assume "justified dilemma 1 0 [[0], [1]]"
  then obtain w where w: "conjecture [[0], [1]] w"
    and br: "\<forall>a<numActions dilemma.
             expected_utility dilemma 1 [[0], [1]] w a \<le> expected_utility dilemma 1 [[0], [1]] w 0"
    unfolding justified_def by blast
  from w have s: "w [0] + w [1] = 1" "0 \<le> w [0]" "0 \<le> w [1]" by (simp_all add: conjecture_def)
  from br have "expected_utility dilemma 1 [[0], [1]] w 1 \<le> expected_utility dilemma 1 [[0], [1]] w 0"
    by (simp add: dilemma_def)
  then have "w [0] * 5 + w [1] * 1 \<le> w [0] * 3 + w [1] * 0"
    by (simp add: expected_utility_def dilemma_def with_action_def)
  with s show False by simp
qed

lemma dilemma_1_1: "justified dilemma 1 1 [[0], [1]]"
proof -
  define w :: "profile \<Rightarrow> real" where "w t = (if t = [0] then 1 else 0)" for t
  have "conjecture [[0], [1]] w"
    by (simp add: conjecture_def w_def)
  moreover have "\<forall>a<numActions dilemma.
             expected_utility dilemma 1 [[0], [1]] w a
               \<le> expected_utility dilemma 1 [[0], [1]] w 1"
    by (auto simp: expected_utility_def w_def dilemma_def with_action_def less_2_cases_iff)
  ultimately show ?thesis unfolding justified_def by blast
qed

lemma dilemma_single: "i < 2 \<Longrightarrow> justified dilemma i 1 [[1]]"
proof -
  assume i: "i < 2"
  define w :: "profile \<Rightarrow> real" where "w t = 1" for t
  have "conjecture [[1]] w"
    by (simp add: conjecture_def w_def)
  moreover have "\<forall>a<numActions dilemma.
             expected_utility dilemma i [[1]] w a \<le> expected_utility dilemma i [[1]] w 1"
    using i
    by (auto simp: expected_utility_def w_def dilemma_def with_action_def less_2_cases_iff)
  ultimately show ?thesis unfolding justified_def by blast
qed

lemma reduce_dilemma_full:
  assumes "neighbors g 0 = Inr []" "neighbors g 1 = Inr []"
  shows "reduceProfiles
           \<lparr>gameWrapper = dilemma, solver = exact_solver, profiles = ps, network = g\<rparr>
           [[0, 0], [0, 1], [1, 0], [1, 1]] = Inr [[1, 1]]"
proof -
  let ?self = "\<lparr>gameWrapper = dilemma, solver = exact_solver, profiles = ps, network = g\<rparr>"
  let ?S = "[[0, 0], [0, 1], [1, 0], [1 :: nat, 1]]"
  have c0: "consistentStrategies ?self p 0 ?S = Inr [[0], [1]]" for p
    by (simp add: consistentStrategies_def assms opponents_def set_add_def)
  have c1: "consistentStrategies ?self p 1 ?S = Inr [[0], [1]]" for p
    using assms(2) by (simp add: consistentStrategies_def opponents_def set_add_def)
  have n: "numPlayers dilemma = 2" by (simp add: dilemma_def)
  have b: "checkBestResponse ?self p i [[0], [1]] = Inr (justified dilemma i (p ! i) [[0], [1]])"
    if "i < length p" for p i
    using checkBestResponse_exact [of "[[0], [1]]" i p ?self] that by simp
  show ?thesis
    using dilemma_0_0 dilemma_1_0 dilemma_1_1 justified_dilemma
    by (simp add: reduceProfiles_def n upt_2 c0 c1 b del: One_nat_def)
qed

lemma reduce_dilemma_fixed:
  assumes "neighbors g 0 = Inr []" "neighbors g 1 = Inr []"
  shows "reduceProfiles
           \<lparr>gameWrapper = dilemma, solver = exact_solver, profiles = ps, network = g\<rparr>
           [[1, 1]] = Inr [[1, 1]]"
proof -
  let ?self = "\<lparr>gameWrapper = dilemma, solver = exact_solver, profiles = ps, network = g\<rparr>"
  have c0: "consistentStrategies ?self [1, 1] 0 [[1, 1]] = Inr [[1]]"
    by (simp add: consistentStrategies_def assms opponents_def set_add_def)
  have c1: "consistentStrategies ?self [1, 1] 1 [[1, 1]] = Inr [[1]]"
    using assms(2) by (simp add: consistentStrategies_def opponents_def set_add_def)
  have n: "numPlayers dilemma = 2" by (simp add: dilemma_def)
  have b: "checkBestResponse ?self [1, 1] i [[1]] = Inr True" if "i < 2" for i
    using checkBestResponse_exact [of "[[1]]" i "[1, 1]" ?self] that dilemma_single [OF that]
    by (auto simp: less_2_cases_iff)
  show ?thesis
    using b [of 0] b [of 1]
    by (simp add: reduceProfiles_def n upt_2 c0 c1 del: One_nat_def)
qed

lemma product_2_2: "product_repeat 2 2 = [[0, 0], [0, 1], [1, 0], [1, 1]]"
  by (simp add: numeral_2_eq_2 upt_rec)

lemma solve_dilemma:
  assumes "neighbors g 0 = Inr []" "neighbors g 1 = Inr []"
  shows "solve \<lparr>gameWrapper = dilemma, solver = exact_solver,
                 profiles = product_repeat 2 2, network = g\<rparr>
         = Inr ([[1, 1]],
                \<lparr>gameWrapper = dilemma, solver = exact_solver, profiles = [[1, 1]], network = g\<rparr>,
                [(4, 1), (1, 1)])"
  unfolding solve_def product_2_2
  by (simp add: reduce_dilemma_full [OF assms] reduce_dilemma_fixed [OF assms]
      zero_less_iff_neq_zero enat_0_iff del: One_nat_def)

lemma product_repeat_length: "p \<in> set (product_repeat a n) \<Longrightarrow> length p = n"
  by (induction n arbitrary: p) auto

lemma solve_returns:
  assumes "network_ok (network self) (numPlayers (gameWrapper self))"
    "profiles_ok (numPlayers (gameWrapper self)) (profiles self)"
  shows "\<exists>result self' out. solve self = Inr (result, self', out)"
  using solve_loop_returns [OF assms, of \<infinity> "length (profiles self)" "[]"]
  by (auto simp: solve_def)

lemma solve_loop_of_solve:
  assumes "solve self = Inr (result, self', out)"
  shows "solve_loop self \<infinity> (length (profiles self)) [] = Inr (self', out) \<and>
         result = profiles self'"
  using assms unfolding solve_def
  by (cases "solve_loop self \<infinity> (length (profiles self)) []")
     (auto simp del: solve_loop.simps)

section \<open>The claims about the rounds\<close>

text \<open>
  Claim C2. One round returns exactly the profiles of the snapshot \<open>S\<close> that are kept, in
  their order: those for which, for every player, the feasibility check on the support computed
  against \<open>S\<close> itself succeeds. On well-formed inputs the round does return.
\<close>

theorem reduceProfiles_exact:
  "(\<forall>R. reduceProfiles self S = Inr R \<longrightarrow> R = filter (keeps self S) S) \<and>
   (network_ok (network self) (numPlayers (gameWrapper self)) \<and>
    profiles_ok (numPlayers (gameWrapper self)) S \<longrightarrow>
      reduceProfiles self S = Inr (filter (keeps self S) S))"
  using reduceProfiles_filter [of self S] reduceProfiles_returns [of self S] by blast

theorem reduceProfiles_exact_witness:
  "reduceProfiles
     \<lparr>gameWrapper = dilemma, solver = exact_solver, profiles = [], network = empty_graph\<rparr>
     [[0, 0], [0, 1], [1, 0], [1, 1]] = Inr [[1, 1]] \<and>
   filter (keeps
       \<lparr>gameWrapper = dilemma, solver = exact_solver, profiles = [], network = empty_graph\<rparr>
       [[0, 0], [0, 1], [1, 0], [1, 1]])
     [[0, 0], [0, 1], [1, 0], [1, 1]] = [[1, 1]]"
proof -
  have nb: "neighbors empty_graph 0 = Inr []" "neighbors empty_graph 1 = Inr []"
    by (simp_all add: neighbors_def empty_graph_def)
  from reduce_dilemma_full [OF nb, of "[]"]
    reduceProfiles_exact [of
      "\<lparr>gameWrapper = dilemma, solver = exact_solver, profiles = [], network = empty_graph\<rparr>"
      "[[0, 0], [0, 1], [1, 0], [1, 1]]"]
  show ?thesis by simp
qed

text \<open>
  Claim C6. A round only filters: what it returns is contained in what it was given and is no
  longer. The rounds that \<open>solve\<close> prints form a chain of sizes that never goes up, and the
  result of \<open>solve\<close> is contained in the initial candidate set.
\<close>

theorem candidate_set_never_grows:
  "(\<forall>R. reduceProfiles self S = Inr R \<longrightarrow> set R \<subseteq> set S \<and> length R \<le> length S) \<and>
   (\<forall>result self' out. solve self = Inr (result, self', out) \<longrightarrow>
      rounds_chain (length (profiles self)) out \<and> set result \<subseteq> set (profiles self))"
proof (intro conjI allI impI)
  fix R assume "reduceProfiles self S = Inr R"
  from reduceProfiles_filter [OF this] show "set R \<subseteq> set S" "length R \<le> length S"
    by auto
next
  fix result self' out assume "solve self = Inr (result, self', out)"
  from solve_loop_of_solve [OF this] solve_loop_chain [of self \<infinity> "length (profiles self)" "[]"]
  show "rounds_chain (length (profiles self)) out" "set result \<subseteq> set (profiles self)"
    by auto
qed

theorem candidate_set_never_grows_witness:
  "set [[1 :: nat, 1]] \<subseteq> set [[0, 0], [0, 1], [1, 0], [1, 1]] \<and>
   length [[1 :: nat, 1]] \<le> length [[0 :: nat, 0], [0, 1], [1, 0], [1, 1]] \<and>
   rounds_chain (length (product_repeat 2 2)) [(4, 1), (1, 1)]"
proof -
  have nb: "neighbors empty_graph 0 = Inr []" "neighbors empty_graph 1 = Inr []"
    by (simp_all add: neighbors_def empty_graph_def)
  from reduce_dilemma_full [OF nb, of "product_repeat 2 2"] solve_dilemma [OF nb]
    candidate_set_never_grows [of
      "\<lparr>gameWrapper = dilemma, solver = exact_solver, profiles = product_repeat 2 2,
        network = empty_graph\<rparr>"
      "[[0, 0], [0, 1], [1, 0], [1, 1]]"]
  show ?thesis by (simp del: One_nat_def)
qed

text \<open>
  Claim C7. The set \<open>solve\<close> returns is a fixed point of the round: one more application,
  on the object as \<open>solve\<close> left it or on the original one, returns the same list. On
  well-formed inputs \<open>solve\<close> does return.
\<close>

theorem solve_fixed_point:
  "(\<forall>result self' out. solve self = Inr (result, self', out) \<longrightarrow>
      reduceProfiles self' result = Inr result \<and> reduceProfiles self result = Inr result) \<and>
   (network_ok (network self) (numPlayers (gameWrapper self)) \<and>
    profiles_ok (numPlayers (gameWrapper self)) (profiles self) \<longrightarrow>
      (\<exists>result self' out. solve self = Inr (result, self', out)))"
proof (intro conjI allI impI)
  fix result self' out assume s: "solve self = Inr (result, self', out)"
  note l = solve_loop_of_solve [OF s]
  from l solve_loop_fixed_point [of self \<infinity> "length (profiles self)" "[]" self' out]
  show fp: "reduceProfiles self' result = Inr result" by simp
  from l solve_loop_chain [of self \<infinity> "length (profiles self)" "[]" self' out]
  have "gameWrapper self' = gameWrapper self" "solver self' = solver self"
    "network self' = network self" by auto
  then have "self' = self\<lparr>profiles := profiles self'\<rparr>" by simp
  then have "reduceProfiles self' result = reduceProfiles self result"
    by (metis reduceProfiles_profiles_update)
  with fp show "reduceProfiles self result = Inr result" by simp
next
  assume "network_ok (network self) (numPlayers (gameWrapper self)) \<and>
    profiles_ok (numPlayers (gameWrapper self)) (profiles self)"
  then show "\<exists>result self' out. solve self = Inr (result, self', out)"
    using solve_returns by blast
qed

theorem solve_fixed_point_witness:
  "solve \<lparr>gameWrapper = dilemma, solver = exact_solver, profiles = product_repeat 2 2,
          network = empty_graph\<rparr>
     = Inr ([[1, 1]],
            \<lparr>gameWrapper = dilemma, solver = exact_solver, profiles = [[1, 1]],
              network = empty_graph\<rparr>,
            [(4, 1), (1, 1)]) \<and>
   reduceProfiles
     \<lparr>gameWrapper = dilemma, solver = exact_solver, profiles = [[1, 1]],
       network = empty_graph\<rparr> [[1, 1]] = Inr [[1, 1]]"
proof -
  have nb: "neighbors empty_graph 0 = Inr []" "neighbors empty_graph 1 = Inr []"
    by (simp_all add: neighbors_def empty_graph_def)
  from solve_dilemma [OF nb]
    solve_fixed_point [of
      "\<lparr>gameWrapper = dilemma, solver = exact_solver, profiles = product_repeat 2 2,
        network = empty_graph\<rparr>"]
  show ?thesis by blast
qed

text \<open>
  Claim C9. The constructor checks one thing about the network: that it is not \<open>None\<close>. A
  network object of any node count is accepted, and when every player is a node whose
  neighbours are player indices, \<open>solve\<close> runs to its end whatever other nodes there are.
\<close>

theorem init_checks_only_none:
  "init gw slv None = Inl AssertionError \<and>
   (\<exists>self. init gw slv (Some g) = Inr self \<and>
      (network_ok g (numPlayers gw) \<longrightarrow>
         (\<exists>result self' out. solve self = Inr (result, self', out))))"
proof -
  let ?self = "\<lparr>gameWrapper = gw, solver = slv,
                 profiles = product_repeat (numActions gw) (numPlayers gw), network = g\<rparr>"
  have "profiles_ok (numPlayers (gameWrapper ?self)) (profiles ?self)"
    by (simp add: profiles_ok_def product_repeat_length)
  then have "network_ok g (numPlayers gw) \<longrightarrow>
         (\<exists>result self' out. solve ?self = Inr (result, self', out))"
    using solve_returns [of ?self] by simp
  then show ?thesis by (simp add: init_def)
qed

theorem init_checks_only_none_witness:
  "init dilemma exact_solver None = Inl AssertionError \<and>
   (\<exists>self. init dilemma exact_solver (Some three_nodes) = Inr self \<and>
      (\<exists>result self' out. solve self = Inr (result, self', out)))"
proof -
  have "network_ok three_nodes (numPlayers dilemma)"
    by (auto simp: network_ok_def three_nodes_def neighbors_def dilemma_def less_2_cases_iff)
  with init_checks_only_none [of dilemma exact_solver three_nodes] show ?thesis by blast
qed

text \<open>
  The claim fails on a network of three nodes for the game of two players: node 2 is not a
  player index, and still the constructor succeeds and \<open>solve\<close> runs its two rounds.
\<close>

theorem init_accepts_three_nodes:
  "length (nodes three_nodes) \<noteq> numPlayers dilemma \<and>
   2 \<in> set (nodes three_nodes) \<and> \<not> 2 < int (numPlayers dilemma) \<and>
   init dilemma exact_solver (Some three_nodes)
     = Inr \<lparr>gameWrapper = dilemma, solver = exact_solver, profiles = product_repeat 2 2,
            network = three_nodes\<rparr> \<and>
   solve \<lparr>gameWrapper = dilemma, solver = exact_solver, profiles = product_repeat 2 2,
          network = three_nodes\<rparr>
     = Inr ([[1, 1]],
            \<lparr>gameWrapper = dilemma, solver = exact_solver, profiles = [[1, 1]],
              network = three_nodes\<rparr>,
            [(4, 1), (1, 1)])"
proof -
  have nb: "neighbors three_nodes 0 = Inr []" "neighbors three_nodes 1 = Inr []"
    by (simp_all add: neighbors_def three_nodes_def)
  have "init dilemma exact_solver (Some three_nodes)
     = Inr \<lparr>gameWrapper = dilemma, solver = exact_solver, profiles = product_repeat 2 2,
            network = three_nodes\<rparr>"
    by (simp add: init_def dilemma_def)
  moreover have "length (nodes three_nodes) \<noteq> numPlayers dilemma"
    "2 \<in> set (nodes three_nodes)" "\<not> 2 < int (numPlayers dilemma)"
    by (simp_all add: nodes_def three_nodes_def dilemma_def)
  ultimately show ?thesis using solve_dilemma [OF nb] by simp
qed

section \<open>The number of rounds\<close>


















end
